theory Spec2Isabelle
  imports Complex_Main
begin

section \<open>Data model (src/types.ts, src/components/Summary.tsx)\<close>

text \<open>
  JavaScript numbers are modelled as exact reals: every statement below is about the
  chart computation in exact arithmetic. A transaction's \<open>date\<close> field is the string the
  code always reads through \<^verbatim>\<open>new Date(tx.date).getTime()\<close>; the model stores that
  epoch-millisecond value directly. The same holds for the two custom bounds of the range
  picker, where the empty string (falsy in the source) is \<open>None\<close>; a custom bound that
  does not parse, for which \<^verbatim>\<open>getTime()\<close> is NaN, is covered by \<open>resolveWindowJS\<close>.
  Fields whose source name clashes with a HOL constant or with a field of the other
  record carry a suffix.
\<close>

datatype TxType = BUY | SELL

record Transaction =
  id_tx :: string
  type_tx :: TxType
  quantity_tx :: real
  pricePerCoin :: real
  date :: real
  totalCost :: real

record Asset =
  id_asset :: string
  ticker :: string
  quantity_asset :: real
  currentPrice :: real
  transactions :: "Transaction list"
  priceHistory :: "(real \<times> real) list option"

datatype TimeRange = Range24H | Range1W | Range1M | RangeALL | RangeCUSTOM

record ChartDataPoint =
  timestamp :: real
  costBasis :: real
  marketValue :: real
  stack :: "string \<rightharpoonup> real"

record Anchor =
  time :: real
  price :: real

section \<open>Ledger accumulation (Summary.tsx, lines 131-140)\<close>

text \<open>The inner \<^verbatim>\<open>forEach\<close> over the transactions of one asset: the pair is
  \<open>(qtyAtTime, costAtTime)\<close>, both starting at 0.\<close>

definition txStep :: "real \<Rightarrow> Transaction \<Rightarrow> real \<times> real \<Rightarrow> real \<times> real" where
  "txStep t tx acc =
     (let txTime = date tx in
      if txTime \<le> t then (fst acc + quantity_tx tx, snd acc + totalCost tx) else acc)"

definition cumulativeAt :: "Transaction list \<Rightarrow> real \<Rightarrow> real \<times> real" where
  "cumulativeAt txs t = fold (txStep t) txs (0, 0)"

section \<open>Time window (Summary.tsx, lines 55-89)\<close>

definition dayMs :: real where
  "dayMs = 24 * 60 * 60 * 1000"

text \<open>The nested \<^verbatim>\<open>forEach\<close> that lowers \<open>firstTxTimestamp\<close>, started at \<open>now\<close>.\<close>

definition firstTxScan :: "Asset list \<Rightarrow> real \<Rightarrow> real" where
  "firstTxScan assets now =
     fold (\<lambda>a acc. fold (\<lambda>tx first. let t = date tx in if t < first then t else first)
                          (transactions a) acc)
          assets now"

definition firstTxTimestamp :: "Asset list \<Rightarrow> real \<Rightarrow> real" where
  "firstTxTimestamp assets now =
     (let first = firstTxScan assets now in
      if assets = [] \<or> first = now then now - dayMs else first)"

text \<open>The branch on \<open>timeRange\<close>; the pair is \<open>(minTime, maxTime)\<close>, both initialised
  to \<open>now\<close>. The \<open>CUSTOM\<close> branch is taken only when \<open>customStart\<close> is truthy.\<close>

definition rangeWindow ::
  "TimeRange \<Rightarrow> real option \<Rightarrow> real option \<Rightarrow> Asset list \<Rightarrow> real \<Rightarrow> real \<times> real" where
  "rangeWindow timeRange customStart customEnd assets now =
     (if timeRange = Range24H then (now - dayMs, now)
      else if timeRange = Range1W then (now - 7 * dayMs, now)
      else if timeRange = Range1M then (now - 30 * dayMs, now)
      else if timeRange = RangeALL then
        (let minTime = firstTxTimestamp assets now
         in (minTime - (minTime * 0.00001), now))
      else if timeRange = RangeCUSTOM \<and> customStart \<noteq> None then
        (case customStart of
           Some start \<Rightarrow> (start, (case customEnd of Some e \<Rightarrow> e | None \<Rightarrow> now))
         | None \<Rightarrow> (now, now))
      else (now, now))"

definition resolveWindow ::
  "TimeRange \<Rightarrow> real option \<Rightarrow> real option \<Rightarrow> Asset list \<Rightarrow> real \<Rightarrow> real \<times> real" where
  "resolveWindow timeRange customStart customEnd assets now =
     (let w = rangeWindow timeRange customStart customEnd assets now;
          minTime = fst w; maxTime = snd w
      in if minTime \<ge> maxTime then (maxTime - dayMs, maxTime) else (minTime, maxTime))"

text \<open>
  The two definitions above are the window for custom bounds that parse. A non-empty
  \<open>customStart\<close> or \<open>customEnd\<close> that \<^verbatim>\<open>new Date\<close> cannot parse gives NaN; only the
  \<open>CUSTOM\<close> branch can bring it into the window. The definitions below transcribe the
  same lines with \<open>minTime\<close> and \<open>maxTime\<close> ranging over numbers that may be NaN: a
  comparison with NaN is false, a difference with NaN is NaN. Lemma
  \<open>resolveWindowJS_parsed\<close> shows that they agree with \<open>resolveWindow\<close> on bounds that
  parse.
\<close>

datatype jsnum = Num real | NaN

fun geJS :: "jsnum \<Rightarrow> jsnum \<Rightarrow> bool" where
  "geJS (Num a) (Num b) = (a \<ge> b)"
| "geJS _ _ = False"

fun ltJS :: "jsnum \<Rightarrow> jsnum \<Rightarrow> bool" where
  "ltJS (Num a) (Num b) = (a < b)"
| "ltJS _ _ = False"

fun subJS :: "jsnum \<Rightarrow> jsnum \<Rightarrow> jsnum" where
  "subJS (Num a) (Num b) = Num (a - b)"
| "subJS _ _ = NaN"

definition rangeWindowJS ::
  "TimeRange \<Rightarrow> jsnum option \<Rightarrow> jsnum option \<Rightarrow> Asset list \<Rightarrow> real \<Rightarrow> jsnum \<times> jsnum" where
  "rangeWindowJS timeRange customStart customEnd assets now =
     (if timeRange = Range24H then (Num (now - dayMs), Num now)
      else if timeRange = Range1W then (Num (now - 7 * dayMs), Num now)
      else if timeRange = Range1M then (Num (now - 30 * dayMs), Num now)
      else if timeRange = RangeALL then
        (let minTime = firstTxTimestamp assets now
         in (Num (minTime - (minTime * 0.00001)), Num now))
      else if timeRange = RangeCUSTOM \<and> customStart \<noteq> None then
        (case customStart of
           Some start \<Rightarrow> (start, (case customEnd of Some e \<Rightarrow> e | None \<Rightarrow> Num now))
         | None \<Rightarrow> (Num now, Num now))
      else (Num now, Num now))"

definition resolveWindowJS ::
  "TimeRange \<Rightarrow> jsnum option \<Rightarrow> jsnum option \<Rightarrow> Asset list \<Rightarrow> real \<Rightarrow> jsnum \<times> jsnum" where
  "resolveWindowJS timeRange customStart customEnd assets now =
     (let w = rangeWindowJS timeRange customStart customEnd assets now;
          minTime = fst w; maxTime = snd w
      in if geJS minTime maxTime then (subJS maxTime (Num dayMs), maxTime)
         else (minTime, maxTime))"

section \<open>Price anchors (Summary.tsx, lines 92-115)\<close>

definition hasHistory :: "Asset \<Rightarrow> bool" where
  "hasHistory asset = (case priceHistory asset of None \<Rightarrow> False | Some h \<Rightarrow> h \<noteq> [])"

text \<open>The loop from index 1 that keeps \<open>anchors[i]\<close> when its time exceeds that of
  \<open>anchors[i-1]\<close>; the first argument is \<open>anchors[i-1]\<close>.\<close>

fun uniqueFrom :: "Anchor \<Rightarrow> Anchor list \<Rightarrow> Anchor list" where
  "uniqueFrom prev [] = []"
| "uniqueFrom prev (a # rest) =
     (if time a > time prev then a # uniqueFrom a rest else uniqueFrom a rest)"

fun uniqueAnchors :: "Anchor list \<Rightarrow> Anchor list" where
  "uniqueAnchors [] = []"
| "uniqueAnchors (a # rest) = a # uniqueFrom a rest"

text \<open>\<^verbatim>\<open>anchors.sort((a, b) => a.time - b.time)\<close> is a stable sort on the time;
  \<open>sort_key\<close> is the library's stable insertion sort.\<close>

definition buildAnchors :: "Asset \<Rightarrow> real \<Rightarrow> Anchor list" where
  "buildAnchors asset now =
     (let anchors = map (\<lambda>tx. \<lparr>time = date tx, price = pricePerCoin tx\<rparr>) (transactions asset);
          anchors = anchors @ [\<lparr>time = now, price = currentPrice asset\<rparr>];
          anchors = sort_key time anchors
      in uniqueAnchors anchors)"

definition priceAnchors :: "Asset list \<Rightarrow> real \<Rightarrow> (string \<rightharpoonup> Anchor list)" where
  "priceAnchors assets now =
     fold (\<lambda>asset pa. if \<not> hasHistory asset
                       then pa(id_asset asset \<mapsto> buildAnchors asset now) else pa)
          assets Map.empty"

section \<open>Price estimation (Summary.tsx, lines 148-197)\<close>

text \<open>Reading a field of an array element that does not exist (\<^verbatim>\<open>undefined[1]\<close>,
  \<^verbatim>\<open>undefined.time\<close>) is the one way this code can throw; every such read goes
  through \<open>elemAt\<close>.\<close>

datatype error = TypeError

definition elemAt :: "'a list \<Rightarrow> int \<Rightarrow> error + 'a" where
  "elemAt xs i = (if 0 \<le> i \<and> i < int (length xs) then Inr (xs ! nat i) else Inl TypeError)"

definition bindE :: "error + 'a \<Rightarrow> ('a \<Rightarrow> error + 'b) \<Rightarrow> error + 'b" where
  "bindE m f = (case m of Inl e \<Rightarrow> Inl e | Inr x \<Rightarrow> f x)"

text \<open>\<^verbatim>\<open>Array.prototype.findIndex\<close>: the first index whose element satisfies the test,
  or -1.\<close>

fun findIndex :: "('a \<Rightarrow> bool) \<Rightarrow> 'a list \<Rightarrow> int" where
  "findIndex P [] = -1"
| "findIndex P (x # xs) =
     (if P x then 0 else (let r = findIndex P xs in if r = -1 then -1 else r + 1))"

text \<open>Strategy 1, real history: a sample is the pair \<open>(p[0], p[1])\<close>.\<close>

definition historyPrice :: "(real \<times> real) list \<Rightarrow> real \<Rightarrow> error + real" where
  "historyPrice assetHistory t =
     (let idx = findIndex (\<lambda>p. fst p \<ge> t) assetHistory in
      if idx = 0 then bindE (elemAt assetHistory 0) (\<lambda>p. Inr (snd p))
      else if idx = -1 then
        bindE (elemAt assetHistory (int (length assetHistory) - 1)) (\<lambda>p. Inr (snd p))
      else
        bindE (elemAt assetHistory (idx - 1)) (\<lambda>p1.
        bindE (elemAt assetHistory idx) (\<lambda>p2.
          let span = fst p2 - fst p1 in
          if span > 0 then
            (let progress = (t - fst p1) / span
             in Inr (snd p1 + (snd p2 - snd p1) * progress))
          else Inr (snd p1))))"

text \<open>Strategy 2, anchors: the \<^verbatim>\<open>for\<close> loop over \<open>k\<close> with its \<^verbatim>\<open>break\<close>; when
  no segment matches, \<open>estimatedPrice\<close> keeps the value it was initialised with.\<close>

function anchorLoop :: "Anchor list \<Rightarrow> real \<Rightarrow> real \<Rightarrow> nat \<Rightarrow> error + real" where
  "anchorLoop anchors t estimatedPrice k =
     (if int k < int (length anchors) - 1 then
        bindE (elemAt anchors (int k)) (\<lambda>prev.
        bindE (elemAt anchors (int k + 1)) (\<lambda>next.
          if t \<ge> time prev \<and> t \<le> time next then
            (let timeSpan = time next - time prev in
             if timeSpan > 0 then
               (let progress = (t - time prev) / timeSpan
                in Inr (price prev + (price next - price prev) * progress))
             else Inr (price prev))
          else anchorLoop anchors t estimatedPrice (k + 1)))
      else Inr estimatedPrice)"
  by pat_completeness auto
termination
  by (relation "measure (\<lambda>(anchors, t, e, k). length anchors - k)") auto

declare anchorLoop.simps [simp del]

definition anchorPrice :: "Anchor list \<Rightarrow> real \<Rightarrow> real \<Rightarrow> error + real" where
  "anchorPrice anchors estimatedPrice t =
     (if length anchors > 0 then
        bindE (elemAt anchors 0) (\<lambda>a0.
          if t \<le> time a0 then Inr (price a0)
          else bindE (elemAt anchors (int (length anchors) - 1)) (\<lambda>aN.
            if t \<ge> time aN then Inr (price aN)
            else anchorLoop anchors t estimatedPrice 0))
      else Inr estimatedPrice)"

definition estimatePrice :: "(string \<rightharpoonup> Anchor list) \<Rightarrow> Asset \<Rightarrow> real \<Rightarrow> error + real" where
  "estimatePrice pa asset t =
     (let estimatedPrice = currentPrice asset in
      case priceHistory asset of
        Some assetHistory \<Rightarrow>
          if length assetHistory > 0 then historyPrice assetHistory t
          else anchorPrice (case pa (id_asset asset) of Some a \<Rightarrow> a | None \<Rightarrow> []) estimatedPrice t
      | None \<Rightarrow>
          anchorPrice (case pa (id_asset asset) of Some a \<Rightarrow> a | None \<Rightarrow> []) estimatedPrice t)"

section \<open>Series synthesis (Summary.tsx, lines 117-211)\<close>

text \<open>The body of \<^verbatim>\<open>assets.forEach\<close> inside the step loop. The state is the triple
  \<open>(totalCost, totalVal, stack)\<close> of the three locals the body updates; \<open>pa\<close> is the
  \<open>priceAnchors\<close> table.\<close>

definition assetStep ::
  "(string \<rightharpoonup> Anchor list) \<Rightarrow> real \<Rightarrow> Asset \<Rightarrow> real \<times> real \<times> (string \<rightharpoonup> real)
     \<Rightarrow> error + (real \<times> real \<times> (string \<rightharpoonup> real))" where
  "assetStep pa t asset acc =
     (case acc of (totalCostAcc, totalVal, stackAcc) \<Rightarrow>
        (case cumulativeAt (transactions asset) t of (qtyAtTime, costAtTime) \<Rightarrow>
           if qtyAtTime \<le> 0 then Inr (totalCostAcc, totalVal, stackAcc(id_asset asset \<mapsto> 0))
           else bindE (estimatePrice pa asset t) (\<lambda>estimatedPrice.
             let val = qtyAtTime * estimatedPrice
             in Inr (totalCostAcc + costAtTime, totalVal + val, stackAcc(id_asset asset \<mapsto> val)))))"

text \<open>A \<^verbatim>\<open>forEach\<close> whose body may throw: the first error ends the loop.\<close>

fun foldE :: "('a \<Rightarrow> 's \<Rightarrow> error + 's) \<Rightarrow> 'a list \<Rightarrow> 's \<Rightarrow> error + 's" where
  "foldE f [] s = Inr s"
| "foldE f (x # xs) s = bindE (f x s) (foldE f xs)"

fun mapE :: "('a \<Rightarrow> error + 'b) \<Rightarrow> 'a list \<Rightarrow> error + 'b list" where
  "mapE f [] = Inr []"
| "mapE f (x # xs) = bindE (f x) (\<lambda>y. bindE (mapE f xs) (\<lambda>ys. Inr (y # ys)))"

definition pointAt ::
  "(string \<rightharpoonup> Anchor list) \<Rightarrow> Asset list \<Rightarrow> real \<Rightarrow> error + ChartDataPoint" where
  "pointAt pa assets t =
     bindE (foldE (assetStep pa t) assets (0, 0, Map.empty)) (\<lambda>acc.
       case acc of (totalCostAcc, totalVal, stackAcc) \<Rightarrow>
         Inr \<lparr>timestamp = t, costBasis = totalCostAcc, marketValue = totalVal,
              stack = stackAcc\<rparr>)"

definition steps :: nat where
  "steps = 150"

text \<open>\<^verbatim>\<open>for (let i = 0; i <= steps; i++)\<close>, pushing one point per iteration.\<close>

definition generatedData ::
  "(string \<rightharpoonup> Anchor list) \<Rightarrow> Asset list \<Rightarrow> real \<Rightarrow> real \<Rightarrow> error + ChartDataPoint list" where
  "generatedData pa assets minTime maxTime =
     (let stepSize = (maxTime - minTime) / real steps
      in mapE (\<lambda>i. let t = minTime + (stepSize * real i) in pointAt pa assets t)
              [0 ..< steps + 1])"

text \<open>The first three stages of the memoised chart computation: window, anchors, series.\<close>

definition chartData ::
  "TimeRange \<Rightarrow> real option \<Rightarrow> real option \<Rightarrow> Asset list \<Rightarrow> real
     \<Rightarrow> error + ChartDataPoint list" where
  "chartData timeRange customStart customEnd assets now =
     (case resolveWindow timeRange customStart customEnd assets now of (minTime, maxTime) \<Rightarrow>
        generatedData (priceAnchors assets now) assets minTime maxTime)"

section \<open>Stack geometry (Summary.tsx, lines 213-279)\<close>

definition width :: real where
  "width = 100"

definition height :: real where
  "height = 100"

definition computedMaxY :: "ChartDataPoint list \<Rightarrow> real" where
  "computedMaxY data =
     (let m = fold (\<lambda>d m. let m1 = (if marketValue d > m then marketValue d else m)
                          in if costBasis d > m1 then costBasis d else m1) data 0;
          m = (if m = 0 then 100 else m)
      in m * 1.1)"

definition getX :: "real \<Rightarrow> real \<Rightarrow> real \<Rightarrow> real" where
  "getX minTime maxTime ts = ((ts - minTime) / (maxTime - minTime)) * width"

definition getY :: "real \<Rightarrow> real \<Rightarrow> real" where
  "getY maxY v = height - ((v / maxY) * height)"

text \<open>\<^verbatim>\<open>d.stack[asset.id] || 0\<close>: a missing key reads as 0.\<close>

definition stackVal :: "ChartDataPoint \<Rightarrow> Asset \<Rightarrow> real" where
  "stackVal d asset = (case stack d (id_asset asset) of Some v \<Rightarrow> v | None \<Rightarrow> 0)"

text \<open>One emitted \<^verbatim>\<open><path>\<close>: its key, the top points \<open>(x, y, val)\<close> and the
  bottom points \<open>(x, y)\<close> in reversed order, before they are formatted into the path
  string. Colour and stroke attributes are left out.\<close>

record StackedPath =
  pathKey :: string
  topPoints :: "(real \<times> real \<times> real) list"
  bottomPoints :: "(real \<times> real) list"

text \<open>\<^verbatim>\<open>topPoints.forEach((p, i) => currentBaselines[i] = p.val)\<close>.\<close>

definition updateBaselines :: "(real \<times> real \<times> real) list \<Rightarrow> real list \<Rightarrow> real list" where
  "updateBaselines tps currentBaselines =
     fold (\<lambda>(p, i) bl. bl[i := snd (snd p)]) (zip tps [0 ..< length tps]) currentBaselines"

text \<open>The body of \<^verbatim>\<open>assets.forEach\<close> that builds the stacked paths; the state is
  \<open>(currentBaselines, stackedPaths)\<close>. Both index reads of \<open>currentBaselines\<close> are in
  range, because the array always has the length of the series (lemma
  \<open>stackStep_length\<close>).\<close>

definition stackStep ::
  "real \<Rightarrow> real \<Rightarrow> real \<Rightarrow> ChartDataPoint list \<Rightarrow> Asset \<Rightarrow> real list \<times> StackedPath list
     \<Rightarrow> real list \<times> StackedPath list" where
  "stackStep minTime maxTime maxY data asset st =
     (case st of (currentBaselines, stackedPaths) \<Rightarrow>
        let hasValue = list_ex (\<lambda>d. stackVal d asset > 0) data in
        if \<not> hasValue then (currentBaselines, stackedPaths)
        else
          let tps = map (\<lambda>(d, i).
                      let v = stackVal d asset;
                          yTop = currentBaselines ! i + v
                      in (getX minTime maxTime (timestamp d), getY maxY yTop, yTop))
                    (zip data [0 ..< length data]);
              bps = rev (map (\<lambda>(d, i).
                      let yBottom = currentBaselines ! i
                      in (getX minTime maxTime (timestamp d), getY maxY yBottom))
                    (zip data [0 ..< length data]))
          in (updateBaselines tps currentBaselines,
              if length tps > 1
              then stackedPaths @ [\<lparr>pathKey = id_asset asset, topPoints = tps,
                                     bottomPoints = bps\<rparr>]
              else stackedPaths))"

definition buildStack ::
  "real \<Rightarrow> real \<Rightarrow> ChartDataPoint list \<Rightarrow> Asset list \<Rightarrow> StackedPath list" where
  "buildStack minTime maxTime data assets =
     snd (fold (stackStep minTime maxTime (computedMaxY data) data) assets
               (replicate (length data) 0, []))"

text \<open>The points of the cost-basis line, before formatting.\<close>

definition costPathPoints :: "real \<Rightarrow> real \<Rightarrow> ChartDataPoint list \<Rightarrow> (real \<times> real) list" where
  "costPathPoints minTime maxTime data =
     map (\<lambda>d. (getX minTime maxTime (timestamp d), getY (computedMaxY data) (costBasis d))) data"

section \<open>Hover lookup (Summary.tsx, lines 319-346)\<close>

record HoverData =
  x_hover :: real
  y_hover :: real
  data_hover :: ChartDataPoint

definition hoverIndex :: "ChartDataPoint list \<Rightarrow> real \<Rightarrow> int" where
  "hoverIndex cd r =
     (let ratio = max 0 (min 1 r)
      in \<lfloor>ratio * (real (length cd) - 1)\<rfloor>)"

text \<open>\<^verbatim>\<open>chartData[index]\<close>, which is \<^verbatim>\<open>undefined\<close> out of range.\<close>

definition hoverPoint :: "ChartDataPoint list \<Rightarrow> real \<Rightarrow> ChartDataPoint option" where
  "hoverPoint cd r =
     (let index = hoverIndex cd r
      in if 0 \<le> index \<and> index < int (length cd) then Some (cd ! nat index) else None)"

text \<open>The handler returns the value passed to \<^verbatim>\<open>setHoverData\<close>, or \<open>None\<close> when it
  returns without setting it. \<open>hasContainer\<close> says whether the container ref is set; the
  three \<open>rect\<close> arguments are the bounding rectangle's \<open>left\<close>, \<open>width\<close> and \<open>height\<close>.\<close>

definition handleMouseMove ::
  "bool \<Rightarrow> ChartDataPoint list \<Rightarrow> real \<Rightarrow> real \<Rightarrow> real \<Rightarrow> real \<Rightarrow> real \<Rightarrow> HoverData option" where
  "handleMouseMove hasContainer cd maxY rectLeft rectWidth rectHeight clientX =
     (if \<not> hasContainer \<or> length cd = 0 then None
      else
        let x = clientX - rectLeft in
        if rectWidth = 0 then None
        else (case hoverPoint cd (x / rectWidth) of
                Some dataPoint \<Rightarrow>
                  Some \<lparr>x_hover = x,
                        y_hover = rectHeight - ((marketValue dataPoint / maxY) * rectHeight),
                        data_hover = dataPoint\<rparr>
              | None \<Rightarrow> None))"

section \<open>Example inputs\<close>

definition tx1 :: Transaction where
  "tx1 = \<lparr>id_tx = ''a'', type_tx = BUY, quantity_tx = 2, pricePerCoin = 100, date = 5,
           totalCost = 200\<rparr>"

definition tx2 :: Transaction where
  "tx2 = \<lparr>id_tx = ''b'', type_tx = BUY, quantity_tx = 3, pricePerCoin = 10, date = 20,
           totalCost = 30\<rparr>"

definition examplePoint :: "real \<Rightarrow> ChartDataPoint" where
  "examplePoint v = \<lparr>timestamp = v, costBasis = 0, marketValue = v, stack = Map.empty\<rparr>"

definition histAsset :: Asset where
  "histAsset = \<lparr>id_asset = ''1'', ticker = ''BTC'', quantity_asset = 1, currentPrice = 50,
     transactions = [], priceHistory = Some [(0, 10), (10, 20), (20, 40)]\<rparr>"

definition scenarioAsset :: Asset where
  "scenarioAsset = \<lparr>id_asset = ''1700000000000'', ticker = ''BTC'', quantity_asset = 1,
     currentPrice = 150,
     transactions = [\<lparr>id_tx = ''t1'', type_tx = BUY, quantity_tx = 1, pricePerCoin = 100,
                       date = 1700000000000, totalCost = 100\<rparr>],
     priceHistory = None\<rparr>"

text \<open>An asset whose only purchase is dated 1969-12-31 (one day before the epoch).\<close>

definition oldAsset :: Asset where
  "oldAsset = \<lparr>id_asset = ''2'', ticker = ''GOLD'', quantity_asset = 1,
     currentPrice = 150,
     transactions = [\<lparr>id_tx = ''t1'', type_tx = BUY, quantity_tx = 1, pricePerCoin = 100,
                       date = - 86400000, totalCost = 100\<rparr>],
     priceHistory = None\<rparr>"

definition ownedAsset :: Asset where
  "ownedAsset = \<lparr>id_asset = ''3'', ticker = ''ETH'', quantity_asset = 2, currentPrice = 50,
     transactions = [tx1], priceHistory = Some [(0, 10), (10, 20), (20, 40)]\<rparr>"

definition laterAsset :: Asset where
  "laterAsset = \<lparr>id_asset = ''4'', ticker = ''SOL'', quantity_asset = 3, currentPrice = 7,
     transactions = [tx2], priceHistory = None\<rparr>"

definition stackData :: "ChartDataPoint list" where
  "stackData =
     [\<lparr>timestamp = 0, costBasis = 0, marketValue = 10, stack = [''3'' \<mapsto> 4, ''4'' \<mapsto> 6]\<rparr>,
      \<lparr>timestamp = 10, costBasis = 0, marketValue = 5, stack = [''3'' \<mapsto> 5, ''4'' \<mapsto> 0]\<rparr>]"

section \<open>Runs that differ only in the transaction type\<close>

text \<open>Two transactions, and two assets, that agree on every field except the \<open>type\<close> of
  their transactions. These relations state the comparison of two runs; they are not
  part of the program.\<close>

definition sameExceptType :: "Transaction \<Rightarrow> Transaction \<Rightarrow> bool" where
  "sameExceptType x y = (y = x\<lparr>type_tx := type_tx y\<rparr>)"

definition sameExceptTypes :: "Asset \<Rightarrow> Asset \<Rightarrow> bool" where
  "sameExceptTypes a b =
     (b = a\<lparr>transactions := transactions b\<rparr>
      \<and> list_all2 sameExceptType (transactions a) (transactions b))"

definition soldAsset :: Asset where
  "soldAsset = \<lparr>id_asset = ''3'', ticker = ''ETH'', quantity_asset = 2, currentPrice = 50,
     transactions = [tx1\<lparr>type_tx := SELL\<rparr>],
     priceHistory = Some [(0, 10), (10, 20), (20, 40)]\<rparr>"

section \<open>Properties\<close>

lemma fold_txStep:
  "fold (txStep t) txs (q, c) =
     (q + sum_list (map quantity_tx (filter (\<lambda>tx. date tx \<le> t) txs)),
      c + sum_list (map totalCost (filter (\<lambda>tx. date tx \<le> t) txs)))"
  by (induction txs arbitrary: q c) (simp_all add: txStep_def)

subsection \<open>Ledger accumulation\<close>

text \<open>
  Claim C1. For every transaction list and every timestamp \<open>t\<close>, the accumulation sums
  quantity and totalCost over exactly the transactions dated at or before \<open>t\<close>; a
  transaction dated strictly after \<open>t\<close> contributes nothing (removing it from the list
  leaves the result unchanged); and when no transaction is dated at or before \<open>t\<close> the
  result is \<open>(0, 0)\<close>.
\<close>

theorem cumulativeAt_sums_dated_le:
  "cumulativeAt txs t =
     (sum_list (map quantity_tx (filter (\<lambda>tx. date tx \<le> t) txs)),
      sum_list (map totalCost (filter (\<lambda>tx. date tx \<le> t) txs)))
   \<and> (t < date tx \<longrightarrow> cumulativeAt (xs @ tx # ys) t = cumulativeAt (xs @ ys) t)
   \<and> ((\<forall>u \<in> set txs. t < date u) \<longrightarrow> cumulativeAt txs t = (0, 0))"
proof (intro conjI impI)
  show sums: "cumulativeAt txs t =
     (sum_list (map quantity_tx (filter (\<lambda>tx. date tx \<le> t) txs)),
      sum_list (map totalCost (filter (\<lambda>tx. date tx \<le> t) txs)))" for txs
    by (simp add: cumulativeAt_def fold_txStep)
  show "cumulativeAt (xs @ tx # ys) t = cumulativeAt (xs @ ys) t" if "t < date tx"
    using that by (simp add: sums)
  show "cumulativeAt txs t = (0, 0)" if "\<forall>u \<in> set txs. t < date u"
  proof -
    have "filter (\<lambda>tx. date tx \<le> t) txs = []"
      using that by (auto simp: filter_empty_conv)
    then show ?thesis by (simp add: sums)
  qed
qed

theorem cumulativeAt_sums_dated_le_witness:
  "(10::real) < date tx2 \<and> set [tx2] = {tx2}
   \<and> cumulativeAt [tx1, tx2] 10 = cumulativeAt [tx1] 10
   \<and> cumulativeAt [tx1] 10 = (2, 200)
   \<and> cumulativeAt [tx2] 10 = (0, 0)"
  using cumulativeAt_sums_dated_le [of "[tx2]" 10 tx2 "[tx1]" "[]"]
        cumulativeAt_sums_dated_le [of "[tx1]" 10 tx2 "[tx1]" "[]"]
  by (simp add: tx1_def tx2_def)

subsection \<open>Time window\<close>

lemma dayMs_pos: "0 < dayMs"
  by (simp add: dayMs_def)

text \<open>The resolved window for bounds that parse, selector by selector.\<close>

lemma resolveWindow_rule:
  "resolveWindow timeRange customStart customEnd assets now =
     (if fst (rangeWindow timeRange customStart customEnd assets now)
           \<ge> snd (rangeWindow timeRange customStart customEnd assets now)
      then (snd (rangeWindow timeRange customStart customEnd assets now) - 86400000,
            snd (rangeWindow timeRange customStart customEnd assets now))
      else rangeWindow timeRange customStart customEnd assets now)"
  and "snd (resolveWindow timeRange customStart customEnd assets now)
         = snd (rangeWindow timeRange customStart customEnd assets now)"
  and "fst (resolveWindow timeRange customStart customEnd assets now)
         < snd (resolveWindow timeRange customStart customEnd assets now)"
  by (simp_all add: resolveWindow_def Let_def dayMs_def)

lemma resolveWindow_by_selector:
  "resolveWindow Range24H customStart customEnd assets now = (now - 86400000, now)"
  "resolveWindow Range1W customStart customEnd assets now = (now - 604800000, now)"
  "resolveWindow Range1M customStart customEnd assets now = (now - 2592000000, now)"
  "resolveWindow RangeALL customStart customEnd assets now =
     (let m = firstTxTimestamp assets now; minTime = m - m * 0.00001
      in if minTime \<ge> now then (now - 86400000, now) else (minTime, now))"
  "resolveWindow RangeCUSTOM None customEnd assets now = (now - 86400000, now)"
  "resolveWindow RangeCUSTOM (Some start) customEnd assets now =
     (let maxTime = (case customEnd of Some e \<Rightarrow> e | None \<Rightarrow> now)
      in if start \<ge> maxTime then (maxTime - 86400000, maxTime) else (start, maxTime))"
  by (simp_all add: resolveWindow_def rangeWindow_def Let_def dayMs_def)

lemma resolveWindow_custom_reversed:
  "resolveWindow RangeCUSTOM (Some 200000000) (Some 100000000) assets 1700000000000
     = (13600000, 100000000)"
  by (simp add: resolveWindow_by_selector)

lemma rangeWindowJS_parsed:
  "rangeWindowJS timeRange (map_option Num customStart) (map_option Num customEnd) assets now
     = (Num (fst (rangeWindow timeRange customStart customEnd assets now)),
        Num (snd (rangeWindow timeRange customStart customEnd assets now)))"
  by (cases customStart; cases customEnd) (simp_all add: rangeWindowJS_def rangeWindow_def Let_def)

lemma resolveWindowJS_parsed:
  "resolveWindowJS timeRange (map_option Num customStart) (map_option Num customEnd) assets now
     = (Num (fst (resolveWindow timeRange customStart customEnd assets now)),
        Num (snd (resolveWindow timeRange customStart customEnd assets now)))"
  by (simp add: resolveWindowJS_def resolveWindow_def rangeWindowJS_parsed Let_def)

text \<open>The window is strictly positive exactly when no NaN bound enters it.\<close>

lemma resolveWindowJS_positive_iff:
  "ltJS (fst (resolveWindowJS timeRange customStart customEnd assets now))
        (snd (resolveWindowJS timeRange customStart customEnd assets now))
   \<longleftrightarrow> \<not> (timeRange = RangeCUSTOM
           \<and> (customStart = Some NaN \<or> (customStart \<noteq> None \<and> customEnd = Some NaN)))"
proof (cases "timeRange = RangeCUSTOM \<and> customStart \<noteq> None")
  case False
  then show ?thesis
    by (auto simp: resolveWindowJS_def rangeWindowJS_def Let_def dayMs_def)
next
  case True
  then obtain s where s: "customStart = Some s" by auto
  obtain e where e: "(case customEnd of Some e \<Rightarrow> e | None \<Rightarrow> Num now) = e" by simp
  have w: "rangeWindowJS timeRange customStart customEnd assets now = (s, e)"
    using True s e by (simp add: rangeWindowJS_def)
  have en: "e = NaN \<longleftrightarrow> customEnd = Some NaN"
    using e by (cases customEnd) auto
  have r: "resolveWindowJS timeRange customStart customEnd assets now
             = (if geJS s e then (subJS e (Num dayMs), e) else (s, e))"
    by (simp add: resolveWindowJS_def w Let_def)
  have "ltJS (fst (if geJS s e then (subJS e (Num dayMs), e) else (s, e)))
             (snd (if geJS s e then (subJS e (Num dayMs), e) else (s, e)))
        \<longleftrightarrow> s \<noteq> NaN \<and> e \<noteq> NaN"
    by (cases s; cases e) (auto simp: dayMs_def)
  then show ?thesis
    unfolding r using True s en by auto
qed


subsection \<open>Hover lookup\<close>

lemma hoverIndex_bounds:
  assumes "cd \<noteq> []"
  shows "0 \<le> hoverIndex cd r" and "hoverIndex cd r \<le> int (length cd) - 1"
proof -
  define ratio where "ratio = max 0 (min 1 r)"
  define n where "n = real (length cd) - 1"
  have r: "0 \<le> ratio" "ratio \<le> 1" by (simp_all add: ratio_def)
  have n: "0 \<le> n" using assms by (cases cd) (simp_all add: n_def)
  have "0 \<le> ratio * n" using r n by simp
  then show "0 \<le> hoverIndex cd r"
    by (simp add: hoverIndex_def ratio_def n_def)
  have "ratio * n \<le> n" using r n by (simp add: mult_left_le_one_le)
  then have "\<lfloor>ratio * n\<rfloor> \<le> \<lfloor>n\<rfloor>" by (rule floor_mono)
  moreover have "\<lfloor>n\<rfloor> = int (length cd) - 1"
    by (simp add: n_def)
  ultimately show "hoverIndex cd r \<le> int (length cd) - 1"
    by (simp add: hoverIndex_def ratio_def n_def)
qed

text \<open>
  Claim C9. For every non-empty point list and every real ratio, the lookup clamps the
  ratio to \<open>[0, 1]\<close>, takes the index \<open>floor (ratio * (length - 1))\<close>, that index lies
  between 0 and \<open>length - 1\<close>, and the point returned is the element at that index (no
  interpolation); the mouse handler, whenever the container has non-zero width, reports
  exactly that element for the ratio \<open>x / width\<close>.
\<close>

theorem hover_index_in_bounds:
  assumes "cd \<noteq> []"
  shows "hoverIndex cd r = \<lfloor>max 0 (min 1 r) * (real (length cd) - 1)\<rfloor>
       \<and> 0 \<le> hoverIndex cd r \<and> hoverIndex cd r \<le> int (length cd) - 1
       \<and> hoverPoint cd r = Some (cd ! nat (hoverIndex cd r))
       \<and> (rectWidth \<noteq> 0 \<longrightarrow>
            map_option data_hover
              (handleMouseMove True cd maxY rectLeft rectWidth rectHeight clientX)
            = Some (cd ! nat (hoverIndex cd ((clientX - rectLeft) / rectWidth))))"
proof -
  have b: "0 \<le> hoverIndex cd q" "hoverIndex cd q < int (length cd)" for q
    using hoverIndex_bounds [OF assms, of q] by simp_all
  have hp: "hoverPoint cd q = Some (cd ! nat (hoverIndex cd q))" for q
    using b [of q] by (simp add: hoverPoint_def Let_def)
  show ?thesis
    using assms b [of r] hp
    by (simp add: handleMouseMove_def Let_def) (simp add: hoverIndex_def)
qed

theorem hover_index_in_bounds_witness:
  "[examplePoint 0, examplePoint 1, examplePoint 2] \<noteq> [] \<and> (200::real) \<noteq> 0
   \<and> hoverIndex [examplePoint 0, examplePoint 1, examplePoint 2] (3/4) = 1
   \<and> hoverPoint [examplePoint 0, examplePoint 1, examplePoint 2] (3/4) = Some (examplePoint 1)
   \<and> hoverPoint [examplePoint 0, examplePoint 1, examplePoint 2] 7 = Some (examplePoint 2)
   \<and> map_option data_hover
        (handleMouseMove True [examplePoint 0, examplePoint 1, examplePoint 2] 110 50 200 100 200)
       = Some (examplePoint 1)"
proof -
  let ?cd = "[examplePoint 0, examplePoint 1, examplePoint 2]"
  have i: "hoverIndex ?cd (3/4) = 1" "hoverIndex ?cd 7 = 2"
    by (simp_all add: hoverIndex_def)
  show ?thesis
    using hover_index_in_bounds [where cd = ?cd and r = "3/4"
            and rectWidth = 200 and maxY = 110 and rectLeft = 50 and rectHeight = 100
            and clientX = 200]
          hover_index_in_bounds [where cd = ?cd and r = 7
            and rectWidth = 200 and maxY = 110 and rectLeft = 50 and rectHeight = 100
            and clientX = 200]
    by (simp add: i)
qed

subsection \<open>Price estimation from real history\<close>

lemma bindE_Inr [simp]: "bindE (Inr x) f = f x"
  by (simp add: bindE_def)

lemma bindE_Inl [simp]: "bindE (Inl e) f = Inl e"
  by (simp add: bindE_def)

lemma elemAt_nth: "i < length xs \<Longrightarrow> elemAt xs (int i) = Inr (xs ! i)"
  by (simp add: elemAt_def)

lemma findIndex_first:
  "i < length xs \<Longrightarrow> P (xs ! i) \<Longrightarrow> (\<And>j. j < i \<Longrightarrow> \<not> P (xs ! j)) \<Longrightarrow> findIndex P xs = int i"
proof (induction xs arbitrary: i)
  case Nil
  then show ?case by simp
next
  case (Cons x xs)
  show ?case
  proof (cases i)
    case 0
    with Cons.prems show ?thesis by simp
  next
    case (Suc k)
    have nx: "\<not> P x" using Cons.prems(3) [of 0] Suc by simp
    have "findIndex P xs = int k"
    proof (rule Cons.IH)
      show "k < length xs" using Cons.prems(1) Suc by simp
      show "P (xs ! k)" using Cons.prems(2) Suc by simp
      show "\<not> P (xs ! j)" if "j < k" for j
        using Cons.prems(3) [of "Suc j"] that Suc by simp
    qed
    with nx Suc show ?thesis by simp
  qed
qed

lemma findIndex_none: "(\<And>x. x \<in> set xs \<Longrightarrow> \<not> P x) \<Longrightarrow> findIndex P xs = -1"
  by (induction xs) simp_all

lemma findIndex_range:
  "findIndex P xs = -1 \<or> (0 \<le> findIndex P xs \<and> findIndex P xs < int (length xs))"
  by (induction xs) (auto simp: Let_def)

lemma historyPrice_at_sample:
  assumes asc: "sorted_wrt (<) (map fst hist)" and i: "i < length hist"
  shows "historyPrice hist (fst (hist ! i)) = Inr (snd (hist ! i))"
proof -
  let ?t = "fst (hist ! i)"
  have lt: "fst (hist ! j) < fst (hist ! k)" if "j < k" "k < length hist" for j k
    using sorted_wrt_nth_less [OF asc, of j k] that by simp
  have idx: "findIndex (\<lambda>p. fst p \<ge> ?t) hist = int i"
  proof (rule findIndex_first [OF i])
    show "?t \<le> fst (hist ! i)" by simp
    show "\<not> ?t \<le> fst (hist ! j)" if "j < i" for j
      using lt [OF that i] by simp
  qed
  show ?thesis
  proof (cases i)
    case 0
    with idx i show ?thesis
      using elemAt_nth [of 0 hist] by (simp add: historyPrice_def)
  next
    case (Suc k)
    have k: "k < length hist" using i Suc by simp
    have span: "0 < fst (hist ! i) - fst (hist ! k)"
      using lt [of k i] i Suc by simp
    have e1: "elemAt hist (int i - 1) = Inr (hist ! k)"
      using elemAt_nth [OF k] Suc by simp
    have e2: "elemAt hist (int i) = Inr (hist ! i)"
      using elemAt_nth [OF i] .
    have "int i \<noteq> 0" "int i \<noteq> -1" using Suc by simp_all
    then show ?thesis
      using span by (simp add: historyPrice_def idx e1 e2 Let_def)
  qed
qed

text \<open>Left clamp: a query at or before the first sample returns the first price.\<close>

lemma historyPrice_left_clamp:
  assumes "hist \<noteq> []" "t \<le> fst (hd hist)"
  shows "historyPrice hist t = Inr (snd (hd hist))"
  using assms by (cases hist) (simp_all add: historyPrice_def elemAt_def)

text \<open>Right clamp: a query after every sample returns the last price.\<close>

lemma historyPrice_right_clamp:
  assumes "hist \<noteq> []" "\<And>p. p \<in> set hist \<Longrightarrow> fst p < t"
  shows "historyPrice hist t = Inr (snd (last hist))"
proof -
  have "findIndex (\<lambda>p. fst p \<ge> t) hist = -1"
    by (rule findIndex_none) (use assms(2) in force)
  moreover have "elemAt hist (int (length hist) - 1) = Inr (last hist)"
    using assms(1) by (cases hist rule: rev_cases) (simp_all add: elemAt_def)
  ultimately show ?thesis by (simp add: historyPrice_def)
qed

text \<open>
  Claim C2. For every asset whose price history is non-empty with strictly ascending
  timestamps, and every sample \<open>(ts, p)\<close> of it, the price estimated at \<open>ts\<close> is exactly
  \<open>p\<close> (in exact arithmetic), whatever the anchor table holds.
\<close>

theorem history_exact_at_samples:
  assumes "priceHistory asset = Some hist" and "hist \<noteq> []"
    and "sorted_wrt (<) (map fst hist)" and "(ts, p) \<in> set hist"
  shows "estimatePrice pa asset ts = Inr p"
proof -
  obtain i where i: "i < length hist" "hist ! i = (ts, p)"
    using assms(4) by (auto simp: in_set_conv_nth)
  have "historyPrice hist ts = Inr p"
    using historyPrice_at_sample [OF assms(3) i(1)] i(2) by simp
  then show ?thesis
    using assms(1,2) by (simp add: estimatePrice_def)
qed

theorem history_exact_at_samples_witness:
  "priceHistory histAsset = Some [(0, 10), (10, 20), (20, 40)]
   \<and> sorted_wrt (<) (map fst [(0::real, 10::real), (10, 20), (20, 40)])
   \<and> (10, 20) \<in> set [(0::real, 10::real), (10, 20), (20, 40)]
   \<and> estimatePrice Map.empty histAsset 10 = Inr 20"
  using history_exact_at_samples [of histAsset "[(0, 10), (10, 20), (20, 40)]" 10 20 Map.empty]
  by (simp add: histAsset_def)

subsection \<open>Price estimation from anchors\<close>

lemma uniqueFrom_ascending:
  assumes "sorted (map time (p # xs))"
  shows "sorted_wrt (<) (map time (uniqueFrom p xs))
       \<and> (\<forall>y \<in> set (uniqueFrom p xs). time p < time y)"
  using assms
proof (induction xs arbitrary: p)
  case Nil
  show ?case by simp
next
  case (Cons x xs)
  have px: "time p \<le> time x" using Cons.prems by simp
  have "sorted (map time (x # xs))" using Cons.prems by simp
  from Cons.IH [OF this]
  have ih: "sorted_wrt (<) (map time (uniqueFrom x xs))"
    "\<forall>y \<in> set (uniqueFrom x xs). time x < time y" by simp_all
  show ?case using px ih by auto
qed

text \<open>The anchors of an asset are strictly ascending in time: after the stable sort, one
  anchor survives per timestamp.\<close>

lemma buildAnchors_strictly_ascending:
  "sorted_wrt (<) (map time (buildAnchors asset now))"
proof -
  let ?anchors = "sort_key time
      (map (\<lambda>tx. \<lparr>time = date tx, price = pricePerCoin tx\<rparr>) (transactions asset)
        @ [\<lparr>time = now, price = currentPrice asset\<rparr>])"
  have s: "sorted (map time ?anchors)" by (rule sorted_sort_key)
  show ?thesis
  proof (cases ?anchors)
    case Nil
    then show ?thesis by (simp add: buildAnchors_def)
  next
    case (Cons a rest)
    then have "sorted (map time (a # rest))" using s by simp
    from uniqueFrom_ascending [OF this] Cons show ?thesis
      by (simp add: buildAnchors_def)
  qed
qed

text \<open>
  Claim C3. For an asset with exactly one transaction (date \<open>day0\<close>, quantity 1, price
  per coin 100), current price 150, no price history and \<open>now = day0 + 10 days\<close>, the
  anchors built are exactly \<open>(day0, 100)\<close> and \<open>(now, 150)\<close>, and the price estimated at
  \<open>day0 + 5 days\<close> is 125.
\<close>

theorem anchor_scenario:
  assumes "transactions asset = [tx]" and "date tx = day0" and "quantity_tx tx = 1"
    and "pricePerCoin tx = 100" and "currentPrice asset = 150" and "\<not> hasHistory asset"
    and "now = day0 + 10 * dayMs"
  shows "buildAnchors asset now = [\<lparr>time = day0, price = 100\<rparr>, \<lparr>time = now, price = 150\<rparr>]
       \<and> priceAnchors [asset] now (id_asset asset)
           = Some [\<lparr>time = day0, price = 100\<rparr>, \<lparr>time = now, price = 150\<rparr>]
       \<and> estimatePrice (priceAnchors [asset] now) asset (day0 + 5 * dayMs) = Inr 125"
proof -
  let ?as = "[\<lparr>time = day0, price = 100\<rparr>, \<lparr>time = now, price = 150\<rparr>]"
  have b: "buildAnchors asset now = ?as"
    using assms by (simp add: buildAnchors_def dayMs_def)
  have p: "priceAnchors [asset] now (id_asset asset) = Some ?as"
    using assms(6) b by (simp add: priceAnchors_def)
  have l: "anchorLoop ?as (day0 + 5 * dayMs) 150 0 = Inr 125"
    using assms(7) by (subst anchorLoop.simps) (simp add: elemAt_def dayMs_def)
  have a: "anchorPrice ?as 150 (day0 + 5 * dayMs) = Inr 125"
    using assms(7) l by (simp add: anchorPrice_def elemAt_def dayMs_def)
  have e: "estimatePrice (priceAnchors [asset] now) asset (day0 + 5 * dayMs) = Inr 125"
    using assms(5,6) a p
    by (simp add: estimatePrice_def hasHistory_def split: option.splits)
  show ?thesis using b p e by simp
qed

theorem anchor_scenario_witness:
  "\<not> hasHistory scenarioAsset
   \<and> buildAnchors scenarioAsset 1700864000000
       = [\<lparr>time = 1700000000000, price = 100\<rparr>, \<lparr>time = 1700864000000, price = 150\<rparr>]
   \<and> estimatePrice (priceAnchors [scenarioAsset] 1700864000000) scenarioAsset 1700432000000
       = Inr 125"
  using anchor_scenario [of scenarioAsset "hd (transactions scenarioAsset)" 1700000000000
          1700864000000]
  by (simp add: scenarioAsset_def hasHistory_def dayMs_def)

subsection \<open>No read of a missing element: the synthesis always returns\<close>

lemma historyPrice_total:
  assumes "hist \<noteq> []"
  shows "\<exists>p. historyPrice hist t = Inr p"
proof -
  let ?idx = "findIndex (\<lambda>p. fst p \<ge> t) hist"
  have len: "0 < int (length hist)" using assms by simp
  consider "?idx = 0" | "?idx = -1" | "0 < ?idx" "?idx < int (length hist)"
    using findIndex_range [of "\<lambda>p. fst p \<ge> t" hist] by linarith
  then show ?thesis
  proof cases
    case 1
    then show ?thesis using len by (simp add: historyPrice_def elemAt_def)
  next
    case 2
    then show ?thesis using len by (simp add: historyPrice_def elemAt_def)
  next
    case 3
    then show ?thesis by (simp add: historyPrice_def elemAt_def Let_def)
  qed
qed

lemma anchorLoop_total: "\<exists>p. anchorLoop anchors t e k = Inr p"
proof (induction anchors t e k rule: anchorLoop.induct)
  case (1 anchors t e k)
  show ?case
  proof (cases "int k < int (length anchors) - 1")
    case False
    then show ?thesis by (subst anchorLoop.simps) simp
  next
    case True
    then have e1: "elemAt anchors (int k) = Inr (anchors ! k)"
      and e2: "elemAt anchors (int k + 1) = Inr (anchors ! (k + 1))"
      by (simp_all add: elemAt_def nat_add_distrib)
    show ?thesis
    proof (cases "t \<ge> time (anchors ! k) \<and> t \<le> time (anchors ! (k + 1))")
      case True
      with \<open>int k < int (length anchors) - 1\<close> show ?thesis
        by (subst anchorLoop.simps) (simp add: e1 e2 Let_def)
    next
      case False
      have "\<exists>p. anchorLoop anchors t e (k + 1) = Inr p"
        using "1.IH" [OF True, of "anchors ! k" "anchors ! (k + 1)"] False by simp
      with False \<open>int k < int (length anchors) - 1\<close> show ?thesis
        by (subst anchorLoop.simps) (simp add: e1 e2)
    qed
  qed
qed

lemma anchorPrice_total: "\<exists>p. anchorPrice anchors e t = Inr p"
proof (cases anchors)
  case Nil
  then show ?thesis by (simp add: anchorPrice_def)
next
  case (Cons a as)
  then have "elemAt anchors 0 = Inr a" 
    and "elemAt anchors (int (length anchors) - 1) = Inr (last anchors)"
    by (simp_all add: elemAt_def last_conv_nth)
  then show ?thesis
    using Cons anchorLoop_total [of anchors t e 0] by (simp add: anchorPrice_def)
qed

lemma estimatePrice_total: "\<exists>p. estimatePrice pa asset t = Inr p"
proof (cases "priceHistory asset")
  case None
  then show ?thesis using anchorPrice_total by (simp add: estimatePrice_def)
next
  case (Some hist)
  then show ?thesis
    using anchorPrice_total historyPrice_total [of hist t]
    by (cases "hist = []") (simp_all add: estimatePrice_def)
qed

lemma assetStep_total: "\<exists>s'. assetStep pa t asset s = Inr s'"
proof -
  obtain p where "estimatePrice pa asset t = Inr p"
    using estimatePrice_total by blast
  then show ?thesis
    by (simp add: assetStep_def Let_def split: prod.splits)
qed

lemma foldE_total:
  assumes "\<And>x s. \<exists>s'. f x s = Inr s'"
  shows "\<exists>s'. foldE f xs s = Inr s'"
proof (induction xs arbitrary: s)
  case Nil
  show ?case by simp
next
  case (Cons x xs)
  obtain s1 where "f x s = Inr s1" using assms by blast
  then show ?case using Cons [of s1] by simp
qed

lemma mapE_total:
  assumes "\<And>x. \<exists>y. f x = Inr y"
  shows "\<exists>ys. mapE f xs = Inr ys \<and> length ys = length xs"
proof (induction xs)
  case Nil
  show ?case by simp
next
  case (Cons x xs)
  obtain y where "f x = Inr y" using assms by blast
  moreover obtain ys where "mapE f xs = Inr ys" "length ys = length xs" using Cons by blast
  ultimately show ?case by simp
qed

lemma pointAt_total: "\<exists>pt. pointAt pa assets t = Inr pt"
proof -
  obtain s where "foldE (assetStep pa t) assets (0, 0, Map.empty) = Inr s"
    using foldE_total [of "assetStep pa t", OF assetStep_total] by blast
  then show ?thesis by (simp add: pointAt_def split: prod.splits)
qed

lemma generatedData_total:
  "\<exists>pts. generatedData pa assets minTime maxTime = Inr pts \<and> length pts = steps + 1"
  using mapE_total [of "\<lambda>i. pointAt pa assets (minTime + (maxTime - minTime) / real steps * real i)"
          "[0 ..< steps + 1]"] pointAt_total
  by (simp add: generatedData_def Let_def)

lemma chartData_total:
  "\<exists>pts. chartData timeRange customStart customEnd assets now = Inr pts \<and> length pts = steps + 1"
  using generatedData_total by (simp add: chartData_def split: prod.splits)

subsection \<open>The ALL range\<close>

lemma fold_min_le: "fold (\<lambda>tx first. let t = date tx in if t < first then t else first) txs acc \<le> acc"
  by (induction txs arbitrary: acc) (auto simp: Let_def intro: order_trans less_imp_le)

lemma fold_min_lower:
  "tx \<in> set txs \<Longrightarrow>
   fold (\<lambda>tx first. let t = date tx in if t < first then t else first) txs acc \<le> date tx"
proof (induction txs arbitrary: acc)
  case Nil
  then show ?case by simp
next
  case (Cons x xs)
  show ?case
  proof (cases "tx = x")
    case True
    have "fold (\<lambda>tx first. let t = date tx in if t < first then t else first) xs
            (if date x < acc then date x else acc) \<le> (if date x < acc then date x else acc)"
      by (rule fold_min_le)
    then show ?thesis using True by (auto simp: Let_def split: if_splits)
  next
    case False
    then show ?thesis using Cons by (simp add: Let_def)
  qed
qed

lemma fold_min_mem:
  "fold (\<lambda>tx first. let t = date tx in if t < first then t else first) txs acc
     \<in> insert acc (date ` set txs)"
  by (induction txs arbitrary: acc) (auto simp: Let_def)

lemma firstTxScan_le: "firstTxScan assets now \<le> now"
proof -
  have "fold (\<lambda>a acc. fold (\<lambda>tx first. let t = date tx in if t < first then t else first)
                          (transactions a) acc) assets acc \<le> acc" for acc
  proof (induction assets arbitrary: acc)
    case Nil show ?case by simp
  next
    case (Cons a as)
    show ?case using Cons [of "fold (\<lambda>tx first. let t = date tx in if t < first then t else first)
                          (transactions a) acc"] fold_min_le [of "transactions a" acc]
      by simp
  qed
  then show ?thesis by (simp add: firstTxScan_def)
qed

lemma firstTxScan_lower:
  assumes "a \<in> set assets" "tx \<in> set (transactions a)"
  shows "firstTxScan assets now \<le> date tx"
proof -
  let ?g = "\<lambda>a acc. fold (\<lambda>tx first. let t = date tx in if t < first then t else first)
                          (transactions a) acc"
  have le: "fold ?g as acc \<le> acc" for as acc
  proof (induction as arbitrary: acc)
    case Nil show ?case by simp
  next
    case (Cons b bs)
    show ?case using Cons [of "?g b acc"] fold_min_le [of "transactions b" acc] by simp
  qed
  have "fold ?g assets acc \<le> date tx" for acc
    using assms(1)
  proof (induction assets arbitrary: acc)
    case Nil
    then show ?case by simp
  next
    case (Cons b bs)
    show ?case
    proof (cases "a = b")
      case True
      have "fold ?g bs (?g b acc) \<le> ?g b acc" by (rule le)
      moreover have "?g b acc \<le> date tx"
        using fold_min_lower [OF assms(2), of acc] True by simp
      ultimately show ?thesis by simp
    next
      case False
      then show ?thesis using Cons by simp
    qed
  qed
  then show ?thesis by (simp add: firstTxScan_def)
qed

lemma firstTxScan_mem:
  "firstTxScan assets now \<in> insert now (date ` (\<Union>a \<in> set assets. set (transactions a)))"
proof -
  let ?g = "\<lambda>a acc. fold (\<lambda>tx first. let t = date tx in if t < first then t else first)
                          (transactions a) acc"
  have "fold ?g assets acc \<in> insert acc (date ` (\<Union>a \<in> set assets. set (transactions a)))" for acc
  proof (induction assets arbitrary: acc)
    case Nil
    show ?case by simp
  next
    case (Cons b bs)
    show ?case
      using Cons [of "?g b acc"] fold_min_mem [of "transactions b" acc] by auto
  qed
  then show ?thesis by (simp add: firstTxScan_def)
qed

text \<open>When the earliest transaction date \<open>T0\<close> is positive and before \<open>now\<close>, the
  \<open>ALL\<close> window is \<open>(T0 - T0 * 0.00001, now)\<close>, which starts strictly before \<open>T0\<close>.\<close>

lemma all_range_after_epoch:
  assumes "a \<in> set assets" and "tx \<in> set (transactions a)" and "date tx = T0"
    and "\<And>b u. b \<in> set assets \<Longrightarrow> u \<in> set (transactions b) \<Longrightarrow> T0 \<le> date u"
    and "T0 < now" and "0 < T0"
  shows "resolveWindow RangeALL customStart customEnd assets now = (T0 - T0 * 0.00001, now)"
    and "fst (resolveWindow RangeALL customStart customEnd assets now) < T0"
proof -
  have le: "firstTxScan assets now \<le> T0"
    using firstTxScan_lower [OF assms(1,2)] assms(3) by simp
  have "firstTxScan assets now \<noteq> now" using le assms(5) by simp
  then have "firstTxScan assets now \<in> date ` (\<Union>a \<in> set assets. set (transactions a))"
    using firstTxScan_mem [of assets now] by simp
  then have "T0 \<le> firstTxScan assets now" using assms(4) by auto
  with le have scan: "firstTxScan assets now = T0" by simp
  have ne: "assets \<noteq> []" using assms(1) by auto
  have first: "firstTxTimestamp assets now = T0"
    using scan ne assms(5) by (simp add: firstTxTimestamp_def)
  have "T0 - T0 * 0.00001 < now" using assms(5,6) by simp
  then show w: "resolveWindow RangeALL customStart customEnd assets now = (T0 - T0 * 0.00001, now)"
    by (simp add: resolveWindow_def rangeWindow_def first Let_def)
  show "fst (resolveWindow RangeALL customStart customEnd assets now) < T0"
    using assms(6) by (simp add: w)
qed

text \<open>
  Claim C6. The claim says that for every portfolio whose earliest transaction is dated
  \<open>T0 < now\<close>, the \<open>ALL\<close> range yields \<open>minTime < T0\<close> and \<open>maxTime = now\<close>. The
  bias subtracts \<open>minTime * 0.00001\<close>, which is not positive when \<open>T0 \<le> 0\<close>: for a
  purchase dated one day before the epoch and \<open>now\<close> in 2023, the code returns
  \<open>minTime = -86399136\<close>, which is later than \<open>T0 = -86400000\<close>, while \<open>maxTime\<close> is
  \<open>now\<close> as claimed.
\<close>

theorem all_range_before_epoch:
  "resolveWindow RangeALL None None [oldAsset] 1700000000000 = (- 86399136, 1700000000000)
   \<and> \<not> fst (resolveWindow RangeALL None None [oldAsset] 1700000000000) < - 86400000"
  by (simp add: resolveWindow_def rangeWindow_def firstTxTimestamp_def firstTxScan_def
        oldAsset_def dayMs_def Let_def)

subsection \<open>Assets not yet owned\<close>

lemma assetStep_not_owned:
  assumes "fst (cumulativeAt (transactions a) t) \<le> 0"
  shows "assetStep pa t a (tc, tv, st) = Inr (tc, tv, st(id_asset a \<mapsto> 0))"
  using assms by (cases "cumulativeAt (transactions a) t") (simp add: assetStep_def)

lemma foldE_append: "foldE f (xs @ ys) s = bindE (foldE f xs s) (foldE f ys)"
proof (induction xs arbitrary: s)
  case Nil
  show ?case by simp
next
  case (Cons x xs)
  show ?case by (cases "f x s") (simp_all add: Cons)
qed

text \<open>The two totals after one asset do not depend on the stack table handed in.\<close>

lemma assetStep_totals:
  assumes "assetStep pa t a (tc, tv, st) = Inr (tc', tv', st')"
  shows "\<exists>st2'. assetStep pa t a (tc, tv, st2) = Inr (tc', tv', st2')"
proof -
  obtain p where "estimatePrice pa a t = Inr p" using estimatePrice_total by blast
  then show ?thesis
    using assms by (auto simp: assetStep_def Let_def split: prod.splits if_splits)
qed

lemma foldE_totals:
  assumes "foldE (assetStep pa t) ys (tc, tv, st) = Inr (tc', tv', st')"
  shows "\<exists>st2'. foldE (assetStep pa t) ys (tc, tv, st2) = Inr (tc', tv', st2')"
  using assms
proof (induction ys arbitrary: tc tv st st2)
  case Nil
  then show ?case by simp
next
  case (Cons y ys)
  obtain c1 v1 s1 where s1: "assetStep pa t y (tc, tv, st) = Inr (c1, v1, s1)"
    using assetStep_total [of pa t y "(tc, tv, st)"] by (metis prod_cases3)
  obtain s2 where s2: "assetStep pa t y (tc, tv, st2) = Inr (c1, v1, s2)"
    using assetStep_totals [OF s1] by blast
  have "foldE (assetStep pa t) ys (c1, v1, s1) = Inr (tc', tv', st')"
    using Cons.prems s1 by simp
  from Cons.IH [OF this, of s2] show ?case using s2 by simp
qed

lemma assetStep_stack_other:
  assumes "assetStep pa t a (tc, tv, st) = Inr (tc', tv', st')" and "k \<noteq> id_asset a"
  shows "st' k = st k"
proof -
  obtain p where "estimatePrice pa a t = Inr p" using estimatePrice_total by blast
  then show ?thesis
    using assms by (auto simp: assetStep_def Let_def split: prod.splits if_splits)
qed

lemma foldE_stack_other:
  assumes "foldE (assetStep pa t) ys (tc, tv, st) = Inr (tc', tv', st')"
    and "k \<notin> id_asset ` set ys"
  shows "st' k = st k"
  using assms
proof (induction ys arbitrary: tc tv st)
  case Nil
  then show ?case by simp
next
  case (Cons y ys)
  obtain c1 v1 s1 where s1: "assetStep pa t y (tc, tv, st) = Inr (c1, v1, s1)"
    using assetStep_total [of pa t y "(tc, tv, st)"] by (metis prod_cases3)
  have "foldE (assetStep pa t) ys (c1, v1, s1) = Inr (tc', tv', st')"
    using Cons.prems(1) s1 by simp
  then have "st' k = s1 k" using Cons.IH Cons.prems(2) by simp
  moreover have "s1 k = st k"
    using assetStep_stack_other [OF s1, of k] Cons.prems(2) by simp
  ultimately show ?case by simp
qed

lemma foldE_remove_not_owned:
  assumes q: "fst (cumulativeAt (transactions a) t) \<le> 0"
    and r: "foldE (assetStep pa t) (xs @ a # ys) s0 = Inr (tc, tv, st)"
  shows "\<exists>st2. foldE (assetStep pa t) (xs @ ys) s0 = Inr (tc, tv, st2)"
    and "id_asset a \<notin> id_asset ` set ys \<Longrightarrow> st (id_asset a) = Some 0"
proof -
  obtain c1 v1 s1 where s1: "foldE (assetStep pa t) xs s0 = Inr (c1, v1, s1)"
    using foldE_total [of "assetStep pa t" xs s0, OF assetStep_total] by (metis prod_cases3)
  have ys: "foldE (assetStep pa t) ys (c1, v1, s1(id_asset a \<mapsto> 0)) = Inr (tc, tv, st)"
    using r s1 assetStep_not_owned [OF q, of pa c1 v1 s1] by (simp add: foldE_append)
  obtain st2 where "foldE (assetStep pa t) ys (c1, v1, s1) = Inr (tc, tv, st2)"
    using foldE_totals [OF ys] by blast
  then show "\<exists>st2. foldE (assetStep pa t) (xs @ ys) s0 = Inr (tc, tv, st2)"
    using s1 by (simp add: foldE_append)
  show "st (id_asset a) = Some 0" if "id_asset a \<notin> id_asset ` set ys"
    using foldE_stack_other [OF ys that] by simp
qed

text \<open>
  Claim C4. For every asset and every timestamp \<open>t\<close> at which the asset's accumulated
  quantity is \<open>\<le> 0\<close>, the asset's step leaves both running totals unchanged and records the
  value 0 under the asset's id, without consulting the price estimate: the point computed
  with the asset in the list has the same marketValue and costBasis as the point computed
  without it, and (when no later asset reuses the id) its stack entry is 0. Every \<open>t\<close>
  strictly before all of the asset's transaction dates is such a timestamp.
\<close>

theorem not_owned_contributes_nothing:
  "(fst (cumulativeAt (transactions a) t) \<le> 0 \<longrightarrow>
      assetStep pa t a (tc, tv, st) = Inr (tc, tv, st(id_asset a \<mapsto> 0))
    \<and> (\<exists>p p'. pointAt pa (xs @ a # ys) t = Inr p \<and> pointAt pa (xs @ ys) t = Inr p'
          \<and> marketValue p = marketValue p' \<and> costBasis p = costBasis p'
          \<and> (id_asset a \<notin> id_asset ` set ys \<longrightarrow> stack p (id_asset a) = Some 0)))
   \<and> ((\<forall>tx \<in> set (transactions a). t < date tx) \<longrightarrow>
         fst (cumulativeAt (transactions a) t) \<le> 0)"
proof (intro conjI impI)
  assume q: "fst (cumulativeAt (transactions a) t) \<le> 0"
  show "assetStep pa t a (tc, tv, st) = Inr (tc, tv, st(id_asset a \<mapsto> 0))"
    by (rule assetStep_not_owned [OF q])
  obtain c v s where r: "foldE (assetStep pa t) (xs @ a # ys) (0, 0, Map.empty) = Inr (c, v, s)"
    using foldE_total [of "assetStep pa t" "xs @ a # ys" "(0, 0, Map.empty)", OF assetStep_total]
    by (metis prod_cases3)
  obtain s2 where r2: "foldE (assetStep pa t) (xs @ ys) (0, 0, Map.empty) = Inr (c, v, s2)"
    using foldE_remove_not_owned(1) [OF q r] by blast
  have k: "id_asset a \<notin> id_asset ` set ys \<Longrightarrow> s (id_asset a) = Some 0"
    using foldE_remove_not_owned(2) [OF q r] .
  show "\<exists>p p'. pointAt pa (xs @ a # ys) t = Inr p \<and> pointAt pa (xs @ ys) t = Inr p'
          \<and> marketValue p = marketValue p' \<and> costBasis p = costBasis p'
          \<and> (id_asset a \<notin> id_asset ` set ys \<longrightarrow> stack p (id_asset a) = Some 0)"
    using r r2 k by (simp add: pointAt_def)
next
  assume "\<forall>tx \<in> set (transactions a). t < date tx"
  then have "filter (\<lambda>tx. date tx \<le> t) (transactions a) = []"
    by (auto simp: filter_empty_conv)
  then show "fst (cumulativeAt (transactions a) t) \<le> 0"
    by (simp add: cumulativeAt_def fold_txStep)
qed

theorem not_owned_contributes_nothing_witness:
  "fst (cumulativeAt (transactions laterAsset) 10) \<le> 0
   \<and> 10 < date tx2
   \<and> assetStep Map.empty 10 laterAsset (200, 40, Map.empty)
        = Inr (200, 40, [id_asset laterAsset \<mapsto> 0])
   \<and> pointAt Map.empty [ownedAsset, laterAsset] 10
        = Inr \<lparr>timestamp = 10, costBasis = 200, marketValue = 40,
               stack = [''3'' \<mapsto> 40, ''4'' \<mapsto> 0]\<rparr>
   \<and> pointAt Map.empty [ownedAsset] 10
        = Inr \<lparr>timestamp = 10, costBasis = 200, marketValue = 40, stack = [''3'' \<mapsto> 40]\<rparr>"
  using not_owned_contributes_nothing [where a = laterAsset and t = 10 and pa = Map.empty
          and tc = 200 and tv = 40 and st = Map.empty and xs = "[ownedAsset]" and ys = "[]"]
  by (simp add: pointAt_def assetStep_def cumulativeAt_def txStep_def estimatePrice_def
        historyPrice_def elemAt_def laterAsset_def ownedAsset_def tx1_def tx2_def Let_def)

subsection \<open>The empty portfolio\<close>

lemma mapE_Inr:
  assumes "\<And>x. f x = Inr (g x)"
  shows "mapE f xs = Inr (map g xs)"
  by (induction xs) (simp_all add: assms)

lemma pointAt_no_assets:
  "pointAt pa [] t = Inr \<lparr>timestamp = t, costBasis = 0, marketValue = 0, stack = Map.empty\<rparr>"
  by (simp add: pointAt_def)

lemma fold_max_zero:
  assumes "\<And>d. d \<in> set data \<Longrightarrow> marketValue d = 0 \<and> costBasis d = 0"
  shows "fold (\<lambda>d m. let m1 = (if marketValue d > m then marketValue d else m)
                      in if costBasis d > m1 then costBasis d else m1) data 0 = 0"
  using assms by (induction data) (simp_all add: Let_def)

text \<open>
  Claim C8. For an empty asset list the synthesis returns 151 points, each with
  marketValue 0 and costBasis 0; the stack builder emits no region; the vertical scale
  falls back to 110 and the cost-basis line is flat at the height of value 0. For every
  asset list (of the declared types) the synthesis returns a series of 151 points: no read
  of a missing array element, the one way this code can throw, ever happens.
\<close>

theorem empty_portfolio_all_zero:
  "(\<exists>pts. chartData timeRange customStart customEnd [] now = Inr pts
        \<and> length pts = 151
        \<and> map marketValue pts = replicate 151 0
        \<and> map costBasis pts = replicate 151 0
        \<and> buildStack minTime maxTime pts [] = []
        \<and> computedMaxY pts = 110
        \<and> map snd (costPathPoints minTime maxTime pts) = replicate 151 (getY 110 0))
   \<and> (\<exists>pts. chartData timeRange customStart customEnd assets now = Inr pts
          \<and> length pts = 151)"
proof (intro conjI)
  obtain mn mx where w: "resolveWindow timeRange customStart customEnd [] now = (mn, mx)"
    by (cases "resolveWindow timeRange customStart customEnd [] now") blast
  define g where "g = (\<lambda>i. \<lparr>timestamp = mn + (mx - mn) / real steps * real i,
                            costBasis = 0, marketValue = 0, stack = Map.empty\<rparr>)"
  define pts where "pts = map g [0 ..< steps + 1]"
  have cd: "chartData timeRange customStart customEnd [] now = Inr pts"
    unfolding chartData_def w generatedData_def Let_def pts_def g_def
    by (simp add: pointAt_no_assets mapE_Inr del: upt_Suc)
  have len: "length pts = 151" by (simp add: pts_def steps_def)
  have zero: "marketValue d = 0 \<and> costBasis d = 0" if "d \<in> set pts" for d
    using that by (auto simp: pts_def g_def)
  have "map marketValue pts = map (\<lambda>d. 0) pts"
    using zero by (intro map_cong) simp_all
  then have mv: "map marketValue pts = replicate 151 0"
    by (simp add: map_replicate_const len)
  have "map costBasis pts = map (\<lambda>d. 0) pts"
    using zero by (intro map_cong) simp_all
  then have cb: "map costBasis pts = replicate 151 0"
    by (simp add: map_replicate_const len)
  have my: "computedMaxY pts = 110"
    by (simp add: computedMaxY_def fold_max_zero [of pts, OF zero])
  have cp: "map snd (costPathPoints minTime maxTime pts) = replicate 151 (getY 110 0)"
  proof -
    have "map snd (costPathPoints minTime maxTime pts) = map (\<lambda>d. getY 110 (costBasis d)) pts"
      by (simp add: costPathPoints_def my comp_def)
    also have "\<dots> = map (\<lambda>d. getY 110 0) pts"
      using zero by (intro map_cong) simp_all
    also have "\<dots> = replicate 151 (getY 110 0)"
      by (simp add: map_replicate_const len)
    finally show ?thesis .
  qed
  have bs: "buildStack minTime maxTime pts [] = []"
    by (simp add: buildStack_def)
  show "\<exists>pts. chartData timeRange customStart customEnd [] now = Inr pts
        \<and> length pts = 151
        \<and> map marketValue pts = replicate 151 0
        \<and> map costBasis pts = replicate 151 0
        \<and> buildStack minTime maxTime pts [] = []
        \<and> computedMaxY pts = 110
        \<and> map snd (costPathPoints minTime maxTime pts) = replicate 151 (getY 110 0)"
    using cd len mv cb bs my cp by blast
  show "\<exists>pts. chartData timeRange customStart customEnd assets now = Inr pts \<and> length pts = 151"
    using chartData_total [of timeRange customStart customEnd assets now]
    by (simp add: steps_def)
qed

subsection \<open>Stack geometry\<close>

lemma zip_index_nth:
  assumes "length bl = length data"
  shows "map (\<lambda>(d, i). f d (bl ! i)) (zip data [0 ..< length data])
       = map (\<lambda>(d, b). f d b) (zip data bl)"
  using assms by (intro nth_equalityI) simp_all

lemma fold_update_prefix:
  assumes "length ps \<le> length bl"
  shows "fold (\<lambda>(p, i) bl. bl[i := f p]) (zip ps [0 ..< length ps]) bl
       = map f ps @ drop (length ps) bl"
  using assms
proof (induction ps rule: rev_induct)
  case Nil
  show ?case by simp
next
  case (snoc p ps)
  have z: "zip (ps @ [p]) [0 ..< length (ps @ [p])] = zip ps [0 ..< length ps] @ [(p, length ps)]"
    by simp
  have ih: "fold (\<lambda>(p, i) bl. bl[i := f p]) (zip ps [0 ..< length ps]) bl
          = map f ps @ drop (length ps) bl"
    using snoc by simp
  have d: "drop (length ps) bl = bl ! length ps # drop (Suc (length ps)) bl"
    using snoc.prems by (simp add: Cons_nth_drop_Suc)
  show ?case
    unfolding z fold_append comp_def
    by (simp add: ih list_update_append d)
qed

lemma updateBaselines_vals:
  assumes "length tps = length bl"
  shows "updateBaselines tps bl = map (\<lambda>p. snd (snd p)) tps"
  using fold_update_prefix [of tps bl "\<lambda>p. snd (snd p)"] assms
  by (simp add: updateBaselines_def)

lemma stackStep_unfold:
  assumes "length bl = length data"
  shows "stackStep mn mx my data a (bl, ps) =
     (if \<not> list_ex (\<lambda>d. stackVal d a > 0) data then (bl, ps)
      else (map (\<lambda>(d, b). b + stackVal d a) (zip data bl),
            if length data > 1
            then ps @ [\<lparr>pathKey = id_asset a,
                         topPoints = map (\<lambda>(d, b). (getX mn mx (timestamp d),
                                         getY my (b + stackVal d a), b + stackVal d a))
                                       (zip data bl),
                         bottomPoints = rev (map (\<lambda>(d, b). (getX mn mx (timestamp d), getY my b))
                                               (zip data bl))\<rparr>]
            else ps))"
proof -
  let ?top = "\<lambda>d b. (getX mn mx (timestamp d), getY my (b + stackVal d a), b + stackVal d a)"
  let ?bot = "\<lambda>d b. (getX mn mx (timestamp d), getY my b)"
  have t: "map (\<lambda>(d, i). ?top d (bl ! i)) (zip data [0 ..< length data])
         = map (\<lambda>(d, b). ?top d b) (zip data bl)"
    by (rule zip_index_nth [OF assms])
  have b: "map (\<lambda>(d, i). ?bot d (bl ! i)) (zip data [0 ..< length data])
         = map (\<lambda>(d, b). ?bot d b) (zip data bl)"
    by (rule zip_index_nth [OF assms])
  have u: "updateBaselines (map (\<lambda>(d, b). ?top d b) (zip data bl)) bl
         = map (\<lambda>(d, b). b + stackVal d a) (zip data bl)"
    using assms by (subst updateBaselines_vals) (simp_all add: case_prod_unfold)
  show ?thesis
    using assms by (simp add: stackStep_def Let_def t b u)
qed

lemma stackStep_length:
  assumes "length bl = length data"
  shows "length (fst (stackStep mn mx my data a (bl, ps))) = length data"
  using assms by (simp add: stackStep_unfold)

text \<open>An asset with no positive value at any point leaves baselines and paths untouched.\<close>

lemma stackStep_no_value:
  assumes "\<And>d. d \<in> set data \<Longrightarrow> \<not> stackVal d a > 0"
  shows "stackStep mn mx my data a st = st"
  using assms by (cases st) (simp add: stackStep_def list_ex_iff)

lemma fold_stackStep_invariant:
  assumes "fold (stackStep mn mx my data) assets (bl, ps) = (bl', ps')"
    and "length bl = length data"
    and "length data \<le> 1 \<Longrightarrow> ps = []"
    and "ps \<noteq> [] \<Longrightarrow>
           topPoints (last ps) = map (\<lambda>(d, b). (getX mn mx (timestamp d), getY my b, b)) (zip data bl)"
    and "\<And>k. Suc k < length ps \<Longrightarrow>
           rev (bottomPoints (ps ! Suc k)) = map (\<lambda>p. (fst p, fst (snd p))) (topPoints (ps ! k))"
    and "\<And>r p. r \<in> set ps \<Longrightarrow> length (topPoints r) = length data
           \<and> length (bottomPoints r) = length data
           \<and> (p \<in> set (topPoints r) \<longrightarrow> fst (snd p) = getY my (snd (snd p)))"
  shows "(\<forall>k. Suc k < length ps' \<longrightarrow>
           rev (bottomPoints (ps' ! Suc k)) = map (\<lambda>p. (fst p, fst (snd p))) (topPoints (ps' ! k)))
       \<and> (\<forall>r p. r \<in> set ps' \<longrightarrow> length (topPoints r) = length data
           \<and> length (bottomPoints r) = length data
           \<and> (p \<in> set (topPoints r) \<longrightarrow> fst (snd p) = getY my (snd (snd p))))"
  using assms
proof (induction assets arbitrary: bl ps)
  case Nil
  then show ?case by simp
next
  case (Cons a assets)
  let ?mk = "\<lambda>bl. map (\<lambda>(d, b). (getX mn mx (timestamp d), getY my b, b)) (zip data bl)"
  let ?bl1 = "map (\<lambda>(d, b). b + stackVal d a) (zip data bl)"
  let ?tps = "map (\<lambda>(d, b). (getX mn mx (timestamp d),
                       getY my (b + stackVal d a), b + stackVal d a)) (zip data bl)"
  let ?bps = "rev (map (\<lambda>(d, b). (getX mn mx (timestamp d), getY my b)) (zip data bl))"
  let ?r = "\<lparr>pathKey = id_asset a, topPoints = ?tps, bottomPoints = ?bps\<rparr>"
  have len: "length bl = length data" by (rule Cons.prems(2))
  show ?case
  proof (cases "list_ex (\<lambda>d. stackVal d a > 0) data \<and> length data > 1")
    case False
    then consider "\<not> list_ex (\<lambda>d. stackVal d a > 0) data"
      | "list_ex (\<lambda>d. stackVal d a > 0) data" "length data \<le> 1" by linarith
    then show ?thesis
    proof cases
      case 1
      then have "stackStep mn mx my data a (bl, ps) = (bl, ps)"
        by (simp add: stackStep_unfold [OF len])
      then have "fold (stackStep mn mx my data) assets (bl, ps) = (bl', ps')"
        using Cons.prems(1) by simp
      from Cons.IH [OF this Cons.prems(2-6)] show ?thesis by simp
    next
      case 2
      then have st: "stackStep mn mx my data a (bl, ps) = (?bl1, ps)"
        by (simp add: stackStep_unfold [OF len])
      have e: "ps = []" using Cons.prems(3) 2 by simp
      have f: "fold (stackStep mn mx my data) assets (?bl1, ps) = (bl', ps')"
        using Cons.prems(1) st by simp
      show ?thesis
      proof (rule Cons.IH [OF f])
        show "length ?bl1 = length data" using len by simp
      qed (simp_all add: e)
    qed
  next
    case True
    then have st: "stackStep mn mx my data a (bl, ps) = (?bl1, ps @ [?r])"
      by (simp add: stackStep_unfold [OF len])
    have f: "fold (stackStep mn mx my data) assets (?bl1, ps @ [?r]) = (bl', ps')"
      using Cons.prems(1) st by simp
    have tps: "?tps = ?mk ?bl1"
      using len by (intro nth_equalityI) simp_all
    show ?thesis
    proof (rule Cons.IH [OF f])
      show "length ?bl1 = length data" using len by simp
      show "ps @ [?r] = []" if "length data \<le> 1" using that True by simp
      show "topPoints (last (ps @ [?r])) = ?mk ?bl1" using tps by simp
      show "rev (bottomPoints ((ps @ [?r]) ! Suc k))
            = map (\<lambda>p. (fst p, fst (snd p))) (topPoints ((ps @ [?r]) ! k))"
        if k: "Suc k < length (ps @ [?r])" for k
      proof (cases "Suc k < length ps")
        case True
        then show ?thesis using Cons.prems(5) [of k] by (simp add: nth_append)
      next
        case False
        then have sk: "Suc k = length ps" using k by simp
        then have ne: "ps \<noteq> []" by auto
        have "k = length ps - 1" using sk by simp
        then have "ps ! k = last ps" using ne by (simp add: last_conv_nth)
        then have "topPoints (ps ! k) = ?mk bl" using Cons.prems(4) [OF ne] by simp
        then show ?thesis using sk by (simp add: nth_append case_prod_unfold)
      qed
      show "length (topPoints r) = length data \<and> length (bottomPoints r) = length data
           \<and> (p \<in> set (topPoints r) \<longrightarrow> fst (snd p) = getY my (snd (snd p)))"
        if "r \<in> set (ps @ [?r])" for r p
      proof (cases "r \<in> set ps")
        case True
        then show ?thesis using Cons.prems(6) by blast
      next
        case False
        then have "r = ?r" using that by simp
        then show ?thesis using len by auto
      qed
    qed
  qed
qed

text \<open>
  Claim C7. In the stack geometry built from any series, for every pair of consecutively
  emitted regions \<open>k\<close> and \<open>k + 1\<close>, the bottom polyline of region \<open>k + 1\<close> (read in
  forward order) is the top polyline of region \<open>k\<close>: at every index \<open>i\<close> the bottom point
  of region \<open>k + 1\<close> is plotted at the height of region \<open>k\<close>'s top value at \<open>i\<close>.
\<close>

theorem baseline_continuity:
  assumes "Suc k < length (buildStack minTime maxTime data assets)"
  shows "rev (bottomPoints (buildStack minTime maxTime data assets ! Suc k))
           = map (\<lambda>p. (fst p, fst (snd p)))
                 (topPoints (buildStack minTime maxTime data assets ! k))
       \<and> length (topPoints (buildStack minTime maxTime data assets ! k)) = length data
       \<and> length (bottomPoints (buildStack minTime maxTime data assets ! Suc k)) = length data
       \<and> (\<forall>i < length data.
             snd (rev (bottomPoints (buildStack minTime maxTime data assets ! Suc k)) ! i)
               = getY (computedMaxY data)
                   (snd (snd (topPoints (buildStack minTime maxTime data assets ! k) ! i))))"
proof -
  let ?regs = "buildStack minTime maxTime data assets"
  obtain bl' where f: "fold (stackStep minTime maxTime (computedMaxY data) data) assets
                         (replicate (length data) 0, []) = (bl', ?regs)"
    by (cases "fold (stackStep minTime maxTime (computedMaxY data) data) assets
                 (replicate (length data) 0, [])") (simp add: buildStack_def)
  have inv: "(\<forall>k. Suc k < length ?regs \<longrightarrow>
           rev (bottomPoints (?regs ! Suc k)) = map (\<lambda>p. (fst p, fst (snd p))) (topPoints (?regs ! k)))
       \<and> (\<forall>r p. r \<in> set ?regs \<longrightarrow> length (topPoints r) = length data
           \<and> length (bottomPoints r) = length data
           \<and> (p \<in> set (topPoints r) \<longrightarrow> fst (snd p) = getY (computedMaxY data) (snd (snd p))))"
    by (rule fold_stackStep_invariant [OF f]) simp_all
  have k: "k < length ?regs" using assms by simp
  have c: "rev (bottomPoints (?regs ! Suc k)) = map (\<lambda>p. (fst p, fst (snd p))) (topPoints (?regs ! k))"
    using inv assms by blast
  have lt: "length (topPoints (?regs ! k)) = length data"
    using inv k by (meson nth_mem)
  have lb: "length (bottomPoints (?regs ! Suc k)) = length data"
    using inv assms by (meson nth_mem)
  have y: "snd (rev (bottomPoints (?regs ! Suc k)) ! i)
            = getY (computedMaxY data) (snd (snd (topPoints (?regs ! k) ! i)))"
    if "i < length data" for i
  proof -
    have "topPoints (?regs ! k) ! i \<in> set (topPoints (?regs ! k))"
      using that lt by simp
    then have "fst (snd (topPoints (?regs ! k) ! i))
                = getY (computedMaxY data) (snd (snd (topPoints (?regs ! k) ! i)))"
      using inv k by (meson nth_mem)
    then show ?thesis using that lt by (simp add: c)
  qed
  show ?thesis using c lt lb y by blast
qed

lemma stackData_maxY: "computedMaxY stackData = 11"
  by (simp add: computedMaxY_def stackData_def Let_def)

lemma stackData_regions:
  "buildStack 0 10 stackData [ownedAsset, laterAsset] =
     [\<lparr>pathKey = ''3'', topPoints = [(0, getY 11 4, 4), (100, getY 11 5, 5)],
        bottomPoints = [(100, getY 11 0), (0, getY 11 0)]\<rparr>,
      \<lparr>pathKey = ''4'', topPoints = [(0, getY 11 10, 10), (100, getY 11 5, 5)],
        bottomPoints = [(100, getY 11 5), (0, getY 11 4)]\<rparr>]"
  by (simp add: buildStack_def stackStep_def stackData_maxY updateBaselines_def Let_def)
     (simp add: stackData_def stackVal_def ownedAsset_def laterAsset_def getX_def width_def)

theorem baseline_continuity_witness:
  "Suc 0 < length (buildStack 0 10 stackData [ownedAsset, laterAsset])
   \<and> map (\<lambda>p. snd (snd p)) (topPoints (buildStack 0 10 stackData [ownedAsset, laterAsset] ! 0))
       = [4, 5]
   \<and> rev (bottomPoints (buildStack 0 10 stackData [ownedAsset, laterAsset] ! Suc 0))
       = [(0, getY 11 4), (100, getY 11 5)]"
  using baseline_continuity [of 0 0 10 stackData "[ownedAsset, laterAsset]"]
  by (simp add: stackData_regions)

subsection \<open>Independence of the transaction type\<close>

lemma sameExceptType_fields:
  assumes "sameExceptType x y"
  shows "date y = date x" "quantity_tx y = quantity_tx x" "totalCost y = totalCost x"
    "pricePerCoin y = pricePerCoin x"
proof -
  have y: "y = x\<lparr>type_tx := type_tx y\<rparr>" using assms by (simp add: sameExceptType_def)
  show "date y = date x" by (subst y) simp
  show "quantity_tx y = quantity_tx x" by (subst y) simp
  show "totalCost y = totalCost x" by (subst y) simp
  show "pricePerCoin y = pricePerCoin x" by (subst y) simp
qed

lemma fold_rel:
  assumes "list_all2 (\<lambda>x y. f x = g y) xs ys"
  shows "fold f xs s = fold g ys s"
  using assms by (induction xs ys arbitrary: s rule: list_all2_induct) simp_all

lemma foldE_rel:
  assumes "list_all2 (\<lambda>x y. f x = g y) xs ys"
  shows "foldE f xs s = foldE g ys s"
  using assms
proof (induction xs ys arbitrary: s rule: list_all2_induct)
  case Nil
  show ?case by simp
next
  case (Cons x xs y ys)
  then have "foldE f xs = foldE g ys" by (intro ext) simp
  then show ?case using Cons.hyps(1) by simp
qed

lemma map_rel:
  assumes "list_all2 (\<lambda>x y. f x = g y) xs ys"
  shows "map f xs = map g ys"
  using assms by (induction xs ys rule: list_all2_induct) simp_all

lemma cumulativeAt_type_free:
  assumes "list_all2 sameExceptType txs txs'"
  shows "cumulativeAt txs' t = cumulativeAt txs t"
proof -
  have "list_all2 (\<lambda>x y. txStep t x = txStep t y) txs txs'"
    using assms
    by (rule list_all2_mono) (auto simp: txStep_def sameExceptType_fields fun_eq_iff)
  then show ?thesis
    by (simp add: cumulativeAt_def fold_rel [of "txStep t" "txStep t"])
qed

lemma sameExceptTypes_fields:
  assumes "sameExceptTypes a b"
  shows "id_asset b = id_asset a" "currentPrice b = currentPrice a"
    "priceHistory b = priceHistory a" "list_all2 sameExceptType (transactions a) (transactions b)"
proof -
  have b: "b = a\<lparr>transactions := transactions b\<rparr>"
    using assms by (simp add: sameExceptTypes_def)
  show "id_asset b = id_asset a" by (subst b) simp
  show "currentPrice b = currentPrice a" by (subst b) simp
  show "priceHistory b = priceHistory a" by (subst b) simp
  show "list_all2 sameExceptType (transactions a) (transactions b)"
    using assms by (simp add: sameExceptTypes_def)
qed

lemma assetStep_type_free:
  assumes "sameExceptTypes a b"
  shows "assetStep pa t b = assetStep pa t a"
proof -
  have e: "estimatePrice pa b t = estimatePrice pa a t"
    by (simp add: estimatePrice_def Let_def sameExceptTypes_fields(1-3) [OF assms]
          cong: if_cong option.case_cong)
  have c: "cumulativeAt (transactions b) t = cumulativeAt (transactions a) t"
    by (rule cumulativeAt_type_free [OF sameExceptTypes_fields(4) [OF assms]])
  show ?thesis
    by (simp add: assetStep_def Let_def e c fun_eq_iff sameExceptTypes_fields(1) [OF assms]
          cong: if_cong)
qed

lemma buildAnchors_type_free:
  assumes "sameExceptTypes a b"
  shows "buildAnchors b now = buildAnchors a now"
proof -
  have "list_all2 (\<lambda>x y. \<lparr>time = date x, price = pricePerCoin x\<rparr>
                          = \<lparr>time = date y, price = pricePerCoin y\<rparr>)
          (transactions a) (transactions b)"
    using sameExceptTypes_fields(4) [OF assms]
    by (rule list_all2_mono) (simp add: sameExceptType_fields)
  then have "map (\<lambda>tx. \<lparr>time = date tx, price = pricePerCoin tx\<rparr>) (transactions a)
           = map (\<lambda>tx. \<lparr>time = date tx, price = pricePerCoin tx\<rparr>) (transactions b)"
    by (rule map_rel)
  then show ?thesis
    by (simp add: buildAnchors_def sameExceptTypes_fields(2) [OF assms])
qed

lemma priceAnchors_type_free:
  assumes "list_all2 sameExceptTypes assets assets'"
  shows "priceAnchors assets' now = priceAnchors assets now"
proof -
  let ?f = "\<lambda>asset pa. if \<not> hasHistory asset
                        then pa(id_asset asset \<mapsto> buildAnchors asset now) else pa"
  have one: "?f a = ?f b" if "sameExceptTypes a b" for a b
    by (simp add: hasHistory_def sameExceptTypes_fields(1,3) [OF that]
          buildAnchors_type_free [OF that] cong: if_cong)
  have "list_all2 (\<lambda>x y. ?f x = ?f y) assets assets'"
    using assms by (rule list_all2_mono) (rule one)
  then show ?thesis
    by (simp add: priceAnchors_def fold_rel [of ?f ?f])
qed

lemma firstTxScan_type_free:
  assumes "list_all2 sameExceptTypes assets assets'"
  shows "firstTxScan assets' now = firstTxScan assets now"
proof -
  let ?h = "\<lambda>tx first. let t = date tx in if t < first then t else first"
  let ?g = "\<lambda>a acc. fold ?h (transactions a) acc"
  have inner: "?g a = ?g b" if "sameExceptTypes a b" for a b
  proof -
    have "list_all2 (\<lambda>x y. ?h x = ?h y) (transactions a) (transactions b)"
      using sameExceptTypes_fields(4) [OF that]
      by (rule list_all2_mono) (simp add: sameExceptType_fields)
    then show ?thesis by (intro ext) (rule fold_rel)
  qed
  have "list_all2 (\<lambda>a b. ?g a = ?g b) assets assets'"
    using assms by (rule list_all2_mono) (rule inner)
  then show ?thesis
    by (simp add: firstTxScan_def fold_rel [of ?g ?g])
qed

lemma resolveWindow_type_free:
  assumes "list_all2 sameExceptTypes assets assets'"
  shows "resolveWindow timeRange customStart customEnd assets' now
       = resolveWindow timeRange customStart customEnd assets now"
proof -
  have "assets' = [] \<longleftrightarrow> assets = []" using assms by (auto simp: list_all2_conv_all_nth)
  then have "firstTxTimestamp assets' now = firstTxTimestamp assets now"
    by (simp add: firstTxTimestamp_def firstTxScan_type_free [OF assms])
  then show ?thesis by (simp add: resolveWindow_def rangeWindow_def)
qed

lemma pointAt_type_free:
  assumes "list_all2 sameExceptTypes assets assets'"
  shows "pointAt pa assets' t = pointAt pa assets t"
proof -
  have "list_all2 (\<lambda>a b. assetStep pa t a = assetStep pa t b) assets assets'"
    using assms by (rule list_all2_mono) (simp add: assetStep_type_free)
  then show ?thesis
    by (simp add: pointAt_def foldE_rel [of "assetStep pa t" "assetStep pa t"])
qed

lemma chartData_type_free:
  assumes "list_all2 sameExceptTypes assets assets'"
  shows "chartData timeRange customStart customEnd assets' now
       = chartData timeRange customStart customEnd assets now"
  by (simp add: chartData_def generatedData_def resolveWindow_type_free [OF assms]
        priceAnchors_type_free [OF assms] pointAt_type_free [OF assms])

lemma buildStack_type_free:
  assumes "list_all2 sameExceptTypes assets assets'"
  shows "buildStack minTime maxTime data assets' = buildStack minTime maxTime data assets"
proof -
  let ?f = "stackStep minTime maxTime (computedMaxY data) data"
  have one: "?f a = ?f b" if "sameExceptTypes a b" for a b
    by (simp add: stackStep_def stackVal_def Let_def sameExceptTypes_fields(1) [OF that]
          fun_eq_iff cong: if_cong)
  have "list_all2 (\<lambda>a b. ?f a = ?f b) assets assets'"
    using assms by (rule list_all2_mono) (rule one)
  then show ?thesis
    by (simp add: buildStack_def fold_rel [of ?f ?f])
qed

text \<open>
  Claim C10. The accumulation never reads the transaction type: two transaction lists
  that differ only in that field accumulate to the same (quantity, cost) at every \<open>t\<close>,
  and two asset lists that differ only in the types of their transactions yield the same
  synthesized series and the same stack geometry. A SELL dated at or before \<open>t\<close> adds
  its quantity and totalCost, as a BUY does.
\<close>

theorem type_field_ignored:
  "(list_all2 sameExceptType txs txs' \<longrightarrow> cumulativeAt txs' t = cumulativeAt txs t)
   \<and> (list_all2 sameExceptTypes assets assets' \<longrightarrow>
        chartData timeRange customStart customEnd assets' now
          = chartData timeRange customStart customEnd assets now
        \<and> buildStack minTime maxTime data assets' = buildStack minTime maxTime data assets)
   \<and> (type_tx tx = SELL \<and> date tx \<le> t \<longrightarrow>
        cumulativeAt (txs @ [tx]) t
          = (fst (cumulativeAt txs t) + quantity_tx tx, snd (cumulativeAt txs t) + totalCost tx))"
proof (intro conjI impI)
  show "cumulativeAt txs' t = cumulativeAt txs t" if "list_all2 sameExceptType txs txs'"
    by (rule cumulativeAt_type_free [OF that])
  show "chartData timeRange customStart customEnd assets' now
          = chartData timeRange customStart customEnd assets now"
    if "list_all2 sameExceptTypes assets assets'"
    by (rule chartData_type_free [OF that])
  show "buildStack minTime maxTime data assets' = buildStack minTime maxTime data assets"
    if "list_all2 sameExceptTypes assets assets'"
    by (rule buildStack_type_free [OF that])
  show "cumulativeAt (txs @ [tx]) t
          = (fst (cumulativeAt txs t) + quantity_tx tx, snd (cumulativeAt txs t) + totalCost tx)"
    if "type_tx tx = SELL \<and> date tx \<le> t"
    using that by (simp add: cumulativeAt_def txStep_def)
qed

theorem type_field_ignored_witness:
  "list_all2 sameExceptType [tx1] [tx1\<lparr>type_tx := SELL\<rparr>]
   \<and> list_all2 sameExceptTypes [ownedAsset] [soldAsset]
   \<and> type_tx (tx1\<lparr>type_tx := SELL\<rparr>) = SELL \<and> date (tx1\<lparr>type_tx := SELL\<rparr>) \<le> 10
   \<and> cumulativeAt [tx1\<lparr>type_tx := SELL\<rparr>] 10 = (2, 200)
   \<and> cumulativeAt [tx1, tx1\<lparr>type_tx := SELL\<rparr>] 10 = (4, 400)
   \<and> chartData RangeALL None None [soldAsset] 30 = chartData RangeALL None None [ownedAsset] 30
   \<and> buildStack 0 10 stackData [soldAsset] = buildStack 0 10 stackData [ownedAsset]"
proof -
  have r: "list_all2 sameExceptType [tx1] [tx1\<lparr>type_tx := SELL\<rparr>]"
    by (simp add: sameExceptType_def)
  have a: "list_all2 sameExceptTypes [ownedAsset] [soldAsset]"
    by (simp add: sameExceptTypes_def sameExceptType_def ownedAsset_def soldAsset_def)
  have c: "cumulativeAt [tx1] 10 = (2, 200)"
    by (simp add: cumulativeAt_def txStep_def tx1_def)
  have d: "date (tx1\<lparr>type_tx := SELL\<rparr>) \<le> 10" "quantity_tx tx1 = 2" "totalCost tx1 = 200"
    by (simp_all add: tx1_def)
  show ?thesis
    using type_field_ignored [where txs = "[tx1]" and txs' = "[tx1\<lparr>type_tx := SELL\<rparr>]"
            and t = 10 and assets = "[ownedAsset]" and assets' = "[soldAsset]"
            and timeRange = RangeALL and customStart = None and customEnd = None and now = 30
            and minTime = 0 and maxTime = 10 and data = stackData
            and tx = "tx1\<lparr>type_tx := SELL\<rparr>"] r a c d
    by simp
qed

end
